theory Spec2Isabelle
  imports Main "HOL-Library.Sublist" "HOL-Library.Char_ord" "HOL-Library.List_Lexorder"
begin

section \<open>Data model\<close>

text \<open>
  The script keeps one \<^verbatim>\<open>HistoricalData\<close> object per package:
  \<^verbatim>\<open>interface HistoricalData { package: string; timestamps: number[];
     downloads: Record<string, number[]> }\<close>.
  Timestamps are epoch milliseconds and counts are download counts, both integers here.
  A JavaScript object used as a dictionary is an association list in insertion order
  with one entry per key; \<open>map_of\<close> is the property read \<^verbatim>\<open>obj[key]\<close>
  (\<open>None\<close> for \<^verbatim>\<open>undefined\<close>). Version keys are taken not to be names of
  \<^verbatim>\<open>Object.prototype\<close> members. JavaScript lists keys that are canonical array
  indices (such as \<^verbatim>\<open>"5"\<close>) in front of the others; the order of the keys plays no part
  in the merge, which treats every key on its own.
\<close>

record HistoricalData =
  package :: string
  timestamps :: "int list"
  downloads :: "(string \<times> int list) list"

section \<open>The array and object primitives the merge uses\<close>

text \<open>
  \<^verbatim>\<open>Array.prototype.findIndex\<close>: the index of the first element that satisfies the
  predicate, and \<open>-1\<close> when no element does.
\<close>

primrec findIndex :: "('a \<Rightarrow> bool) \<Rightarrow> 'a list \<Rightarrow> int" where
  "findIndex p [] = - 1"
| "findIndex p (x # xs) =
     (if p x then 0
      else (let i = findIndex p xs in if i < 0 then - 1 else i + 1))"

text \<open>
  \<^verbatim>\<open>Array.prototype.splice(start, 0, item)\<close>. ECMAScript normalises the start index
  first: a negative \<open>start\<close> counts back from the end (\<open>max (len + start) 0\<close>), a
  non-negative one is clipped to the length (\<open>min start len\<close>). The item is then
  inserted in front of the element at the normalised index.
\<close>

definition spliceStart :: "int \<Rightarrow> nat \<Rightarrow> nat" where
  "spliceStart start len =
     (if start < 0 then nat (max (int len + start) 0) else min (nat start) len)"

definition splice :: "int \<Rightarrow> 'a \<Rightarrow> 'a list \<Rightarrow> 'a list" where
  "splice start item xs =
     (let k = spliceStart start (length xs) in take k xs @ item # drop k xs)"

text \<open>
  The assignment \<^verbatim>\<open>obj[key] = value\<close>: an existing key keeps its place, a new key is
  added last.
\<close>

fun assign :: "'k \<Rightarrow> 'v \<Rightarrow> ('k \<times> 'v) list \<Rightarrow> ('k \<times> 'v) list" where
  "assign k v [] = [(k, v)]"
| "assign k v ((k', v') # ps) =
     (if k' = k then (k, v) # ps else (k', v') # assign k v ps)"

text \<open>
  The test \<^verbatim>\<open>!newDownloads[version]\<close> on a \<^verbatim>\<open>Record<string, number>\<close>: true when the
  key is missing (\<^verbatim>\<open>undefined\<close>) and also when the stored number is \<open>0\<close>.
\<close>

definition falsy :: "int option \<Rightarrow> bool" where
  "falsy c = (case c of None \<Rightarrow> True | Some n \<Rightarrow> n = 0)"

section \<open>The merge: \<^verbatim>\<open>updateHistoricalData\<close>\<close>

text \<open>
  First loop, \<^verbatim>\<open>for (const [version, count] of Object.entries(newDownloads))\<close>:
  a version without an array gets \<^verbatim>\<open>new Array(existingData.timestamps.length).fill(0)\<close>
  (\<open>n\<close> is that length, taken after the timestamp was spliced in); a version with an
  array gets \<^verbatim>\<open>splice(insertIndex, 0, count)\<close>.
\<close>

fun addCounts ::
  "int \<Rightarrow> nat \<Rightarrow> (string \<times> int) list \<Rightarrow> (string \<times> int list) list \<Rightarrow> (string \<times> int list) list"
where
  "addCounts insertIndex n [] dl = dl"
| "addCounts insertIndex n ((version, count) # rest) dl =
     addCounts insertIndex n rest
       (case map_of dl version of
          None \<Rightarrow> assign version (replicate n 0) dl
        | Some arr \<Rightarrow> assign version (splice insertIndex count arr) dl)"

text \<open>
  Second loop, \<^verbatim>\<open>for (const version of Object.keys(existingData.downloads))\<close>: every
  key is visited once and its array is spliced in place when
  \<^verbatim>\<open>!newDownloads[version]\<close>.
\<close>

definition fillMissing ::
  "int \<Rightarrow> (string \<times> int) list \<Rightarrow> (string \<times> int list) list \<Rightarrow> (string \<times> int list) list"
where
  "fillMissing insertIndex newDownloads dl =
     map (\<lambda>(version, arr).
            if falsy (map_of newDownloads version)
            then (version, splice insertIndex 0 arr) else (version, arr)) dl"

definition updateHistoricalData ::
  "(string \<times> int) list \<Rightarrow> int \<Rightarrow> HistoricalData \<Rightarrow> HistoricalData"
where
  "updateHistoricalData newDownloads timestamp existingData =
     (let insertIndex = findIndex (\<lambda>value. value \<ge> timestamp) (timestamps existingData) in
      if insertIndex \<ge> 0 \<and> timestamps existingData ! nat insertIndex = timestamp
      then existingData
      else
        (let ts = splice insertIndex timestamp (timestamps existingData);
             dl1 = addCounts insertIndex (length ts) newDownloads (downloads existingData);
             dl2 = fillMissing insertIndex newDownloads dl1
         in existingData\<lparr>timestamps := ts, downloads := dl2\<rparr>))"

text \<open>
  Index alignment (the invariant of the data model): every version's array has one entry
  per timestamp.
\<close>

definition aligned :: "HistoricalData \<Rightarrow> bool" where
  "aligned s = list_all (\<lambda>(version, arr). length arr = length (timestamps s)) (downloads s)"

section \<open>Dates and week keys\<close>

text \<open>
  A \<^verbatim>\<open>Date\<close> object is its time value, the milliseconds since 1970-01-01T00:00:00Z;
  \<open>None\<close> is an Invalid Date (time value \<^verbatim>\<open>NaN\<close>). The \<^verbatim>\<open>getUTC...\<close> methods and
  \<^verbatim>\<open>toISOString\<close> read the time value in UTC. \<^verbatim>\<open>getFullYear\<close>, \<^verbatim>\<open>getMonth\<close>,
  \<^verbatim>\<open>getDate\<close> and the constructor \<^verbatim>\<open>new Date(y, m, d, 0, 0, 0, 0)\<close> work in the local
  time zone of the process, which is a parameter here: \<open>off\<close> is local time minus UTC
  in milliseconds, the same for all dates (no daylight saving change). Years 0 to 99,
  which the constructor maps to 1900 to 1999, and time values beyond the range of
  \<^verbatim>\<open>Date\<close> are outside the model.
\<close>

type_synonym Date = "int option"

datatype error =
    SeedFolderNotFound
  | ExistingDataNotFound string
  | RangeError
  | TypeError
  | Thrown string

definition DAY_MILLISECONDS :: int where
  "DAY_MILLISECONDS = 24 * 60 * 60 * 1000"

text \<open>\<^verbatim>\<open>getUTCDay\<close>: the day of the week, Sunday is \<open>0\<close>; day \<open>0\<close> was a Thursday.\<close>

definition getUTCDay :: "int \<Rightarrow> int" where
  "getUTCDay t = (t div DAY_MILLISECONDS + 4) mod 7"

text \<open>
  \<^verbatim>\<open>onlyDay\<close> builds \<^verbatim>\<open>new Date(date.getFullYear(), date.getMonth(), date.getDate(),
  0, 0, 0, 0)\<close>: midnight, local time, of the local calendar day of the date.
\<close>

definition onlyDay :: "int \<Rightarrow> int \<Rightarrow> int" where
  "onlyDay off t = (t + off) div DAY_MILLISECONDS * DAY_MILLISECONDS - off"

text \<open>
  The calendar date (year, month, day of month) of a day number in the proleptic
  Gregorian calendar, computed by eras of 400 years that begin on a 1st of March.
\<close>

definition civil :: "int \<Rightarrow> int \<times> int \<times> int" where
  "civil days =
     (let z = days + 719468;
          era = z div 146097;
          doe = z mod 146097;
          yoe = (doe - doe div 1460 + doe div 36524 - doe div 146096) div 365;
          doy = doe - (365 * yoe + yoe div 4 - yoe div 100);
          mp = (5 * doy + 2) div 153;
          d = doy - (153 * mp + 2) div 5 + 1;
          m = (if mp < 10 then mp + 3 else mp - 9);
          y = yoe + era * 400 + (if m \<le> 2 then 1 else 0)
      in (y, m, d))"

fun pad :: "nat \<Rightarrow> nat \<Rightarrow> string" where
  "pad 0 n = []"
| "pad (Suc w) n = pad w (n div 10) @ [''0123456789'' ! (n mod 10)]"

text \<open>
  \<^verbatim>\<open>toISOString().split('T')[0]\<close> of the time value at a day number: \<^verbatim>\<open>YYYY-MM-DD\<close>,
  with a sign and six digits for a year outside 0 to 9999.
\<close>

definition toISODate :: "int \<Rightarrow> string" where
  "toISODate days =
     (case civil days of (y, m, d) \<Rightarrow>
        (if 0 \<le> y \<and> y \<le> 9999 then pad 4 (nat y)
         else (if y < 0 then ''-'' else ''+'') @ pad 6 (nat \<bar>y\<bar>))
        @ ''-'' @ pad 2 (nat m) @ ''-'' @ pad 2 (nat d))"

text \<open>
  \<^verbatim>\<open>getWeekKey\<close>. \<^verbatim>\<open>sunday.setUTCDate(date.getUTCDate() - dayOfWeek)\<close> moves the time
  value back by \<open>dayOfWeek\<close> whole days (a day of month below 1 reaches into the month
  before). \<^verbatim>\<open>toISOString\<close> throws a \<^verbatim>\<open>RangeError\<close> on an Invalid Date.
\<close>

definition getWeekKey :: "int \<Rightarrow> Date \<Rightarrow> error + string" where
  "getWeekKey off date =
     (case date of
        None \<Rightarrow> Inl RangeError
      | Some t \<Rightarrow>
          (let dayOfWeek = getUTCDay t;
               sunday = t - dayOfWeek * DAY_MILLISECONDS
           in Inr (toISODate (onlyDay off sunday div DAY_MILLISECONDS))))"

text \<open>\<^verbatim>\<open>date.split(".")[0]\<close>: the part of the identifier in front of its first dot.\<close>

definition stem :: "string \<Rightarrow> string" where
  "stem date = takeWhile (\<lambda>c. c \<noteq> CHR ''.'') date"

text \<open>
  \<^verbatim>\<open>batchDatesByWeek\<close>. The \<^verbatim>\<open>Map\<close> is an association list in insertion order; the
  constructor \<^verbatim>\<open>new Date(string)\<close> of the host is the parameter \<open>newDate\<close>. The default
  \<^verbatim>\<open>sort()\<close> orders strings by their code units, which is the lexicographic order of
  \<open>string\<close>.
\<close>

definition pushDate ::
  "string \<Rightarrow> string \<Rightarrow> (string \<times> string list) list \<Rightarrow> (string \<times> string list) list"
where
  "pushDate weekKey date weekMap =
     (case map_of weekMap weekKey of
        None \<Rightarrow> assign weekKey [date] weekMap
      | Some dates \<Rightarrow> assign weekKey (dates @ [date]) weekMap)"

fun groupDates ::
  "int \<Rightarrow> (string \<Rightarrow> Date) \<Rightarrow> string list \<Rightarrow> (string \<times> string list) list
     \<Rightarrow> error + (string \<times> string list) list"
where
  "groupDates off newDate [] weekMap = Inr weekMap"
| "groupDates off newDate (date # rest) weekMap =
     (case getWeekKey off (newDate (stem date)) of
        Inl e \<Rightarrow> Inl e
      | Inr weekKey \<Rightarrow> groupDates off newDate rest (pushDate weekKey date weekMap))"

definition batchDatesByWeek ::
  "int \<Rightarrow> (string \<Rightarrow> Date) \<Rightarrow> string list \<Rightarrow> error + (string \<times> string list) list"
where
  "batchDatesByWeek off newDate dates =
     (case groupDates off newDate dates [] of
        Inl e \<Rightarrow> Inl e
      | Inr weekMap \<Rightarrow> Inr (map (\<lambda>(weekKey, ds). (weekKey, sort ds)) weekMap))"

section \<open>The per-package run: \<^verbatim>\<open>processPackage\<close>\<close>

text \<open>
  What the script finds on disk and in its host is the environment. A read that fails
  with \<^verbatim>\<open>ENOENT\<close> gives \<open>Inr None\<close> (the functions return \<^verbatim>\<open>null\<close>); any other failure,
  a JSON parse error included, is rethrown: \<open>Inl\<close>. A seed file holds a
  \<^verbatim>\<open>Record<string, NpmDownloadResponse>\<close>; a response whose \<^verbatim>\<open>downloads\<close> member is
  missing has \<open>None\<close> there.
\<close>

record NpmDownloadResponse =
  response_package :: string
  response_downloads :: "(string \<times> int) list option"

type_synonym Snapshot = "(string \<times> NpmDownloadResponse) list"

record Env =
  tzOffset :: int
  newDate :: "string \<Rightarrow> Date"
  readdirSeed :: "error + string list option"
  readSeedFile :: "string \<Rightarrow> error + Snapshot option"
  readDataFile :: "string \<Rightarrow> error + HistoricalData option"
  mkdirError :: "string \<Rightarrow> error option"
  writeError :: "string \<Rightarrow> error option"

definition getSeedDates :: "Env \<Rightarrow> error + string list option" where
  "getSeedDates env =
     (case readdirSeed env of
        Inl e \<Rightarrow> Inl e
      | Inr None \<Rightarrow> Inr None
      | Inr (Some names) \<Rightarrow> Inr (Some (sort names)))"

definition readSeedData :: "Env \<Rightarrow> string \<Rightarrow> error + Snapshot option" where
  "readSeedData env date =
     readSeedFile env (if suffix ''.json'' date then date else date @ ''.json'')"

text \<open>
  The test \<^verbatim>\<open>data && data[packageName] && data[packageName].downloads\<close> together with
  the value it guards.
\<close>

definition packageDownloads :: "Snapshot option \<Rightarrow> string \<Rightarrow> (string \<times> int) list option" where
  "packageDownloads data packageName =
     (case data of
        None \<Rightarrow> None
      | Some d \<Rightarrow>
          (case map_of d packageName of
             None \<Rightarrow> None
           | Some r \<Rightarrow> response_downloads r))"

text \<open>
  The state of the loops: the series being mutated, the counter, and the seed files read
  so far, in order.
\<close>

record Run =
  series :: HistoricalData
  weeksAdded :: nat
  seedReads :: "string list"

text \<open>
  The inner loop over the dates of one week, with its \<^verbatim>\<open>break\<close>. A date whose
  \<^verbatim>\<open>Date\<close> is invalid cannot get here, \<^verbatim>\<open>batchDatesByWeek\<close> has thrown on it before
  (lemma \<open>scanned_dates_parse\<close> below); the branch for it only makes the function total.
\<close>

fun scanWeek :: "Env \<Rightarrow> string \<Rightarrow> string list \<Rightarrow> Run \<Rightarrow> error + Run" where
  "scanWeek env packageName [] run = Inr run"
| "scanWeek env packageName (date # rest) run =
     (case readSeedData env date of
        Inl e \<Rightarrow> Inl e
      | Inr data \<Rightarrow>
          (case packageDownloads data packageName of
             Some newDownloads \<Rightarrow>
               (case newDate env (stem date) of
                  None \<Rightarrow> Inl RangeError
                | Some timestamp \<Rightarrow>
                    Inr \<lparr>series = updateHistoricalData newDownloads timestamp (series run),
                         weeksAdded = weeksAdded run + 1,
                         seedReads = seedReads run @ [date]\<rparr>)
           | None \<Rightarrow>
               scanWeek env packageName rest (run\<lparr>seedReads := seedReads run @ [date]\<rparr>)))"

text \<open>
  The outer loop over the sorted week keys. \<^verbatim>\<open>weekMap.get(weekKey)!\<close> of a missing
  key would be \<^verbatim>\<open>undefined\<close>, and iterating it a \<^verbatim>\<open>TypeError\<close>.
\<close>

fun processWeeks ::
  "Env \<Rightarrow> string \<Rightarrow> (string \<times> string list) list \<Rightarrow> string list \<Rightarrow> Run \<Rightarrow> error + Run"
where
  "processWeeks env packageName weekMap [] run = Inr run"
| "processWeeks env packageName weekMap (weekKey # rest) run =
     (case map_of weekMap weekKey of
        None \<Rightarrow> Inl TypeError
      | Some weekDates \<Rightarrow>
          (case scanWeek env packageName weekDates run of
             Inl e \<Rightarrow> Inl e
           | Inr run' \<Rightarrow> processWeeks env packageName weekMap rest run'))"

text \<open>
  \<^verbatim>\<open>processPackage\<close>; on success the series of the returned state is what
  \<^verbatim>\<open>writeFile\<close> has stored in the data file of the package.
\<close>

definition processPackage :: "Env \<Rightarrow> string \<Rightarrow> error + Run" where
  "processPackage env packageName =
     (case getSeedDates env of
        Inl e \<Rightarrow> Inl e
      | Inr None \<Rightarrow> Inl SeedFolderNotFound
      | Inr (Some dates) \<Rightarrow>
          (case mkdirError env packageName of
             Some e \<Rightarrow> Inl e
           | None \<Rightarrow>
               (case readDataFile env packageName of
                  Inl e \<Rightarrow> Inl e
                | Inr None \<Rightarrow> Inl (ExistingDataNotFound packageName)
                | Inr (Some existingData) \<Rightarrow>
                    (case batchDatesByWeek (tzOffset env) (newDate env) dates of
                       Inl e \<Rightarrow> Inl e
                     | Inr weekMap \<Rightarrow>
                         (case processWeeks env packageName weekMap (sort (map fst weekMap))
                                 \<lparr>series = existingData, weeksAdded = 0, seedReads = []\<rparr> of
                            Inl e \<Rightarrow> Inl e
                          | Inr run \<Rightarrow>
                              (case writeError env packageName of
                                 Some e \<Rightarrow> Inl e
                               | None \<Rightarrow> Inr run))))))"

section \<open>The batch: \<^verbatim>\<open>main\<close>\<close>

definition PACKAGES :: "string list" where
  "PACKAGES =
     [''@mui/codemod'', ''@mui/core-downloads-tracker'', ''@mui/icons-material'', ''@mui/lab'',
      ''@mui/material-nextjs'', ''@mui/material'', ''@mui/material-pigment-css'',
      ''@mui/private-theming'', ''@mui/styled-engine'', ''@mui/styled-engine-sc'',
      ''@mui/system'', ''@mui/types'', ''@mui/utils'',
      ''@mui/x-data-grid'', ''@mui/x-data-grid-generator'', ''@mui/x-data-grid-pro'',
      ''@mui/x-data-grid-premium'', ''@mui/x-date-pickers'', ''@mui/x-date-pickers-pro'',
      ''@mui/x-charts'', ''@mui/x-charts-pro'', ''@mui/x-charts-premium'',
      ''@mui/x-charts-vendor'', ''@mui/x-tree-view'', ''@mui/x-tree-view-pro'',
      ''@mui/x-license'', ''@mui/x-internals'', ''@mui/x-telemetry'',
      ''@base-ui-components/react'',
      ''react'', ''@emotion/react'']"

text \<open>\<^verbatim>\<open>error.message\<close> of what was thrown.\<close>

fun message :: "error \<Rightarrow> string" where
  "message SeedFolderNotFound = ''Seed folder not found''"
| "message (ExistingDataNotFound packageName) = ''existing data not found for '' @ packageName"
| "message RangeError = ''Invalid time value''"
| "message TypeError = ''undefined is not iterable''"
| "message (Thrown m) = m"

record PackageResult =
  result_package :: string
  success :: bool
  result_error :: "string option"

text \<open>
  The \<^verbatim>\<open>async\<close> function given to \<^verbatim>\<open>PACKAGES.map\<close>: its promise is fulfilled (\<open>Inr\<close>)
  or rejected (\<open>Inl\<close>). With the result comes the data file the package has written, if
  any.
\<close>

definition tryPackage ::
  "Env \<Rightarrow> string \<Rightarrow> (error + PackageResult) \<times> (string \<times> HistoricalData) option"
where
  "tryPackage env packageName =
     (case processPackage env packageName of
        Inr run \<Rightarrow>
          (Inr \<lparr>result_package = packageName, success = True, result_error = None\<rparr>,
           Some (packageName, series run))
      | Inl e \<Rightarrow>
          (Inr \<lparr>result_package = packageName, success = False,
                result_error = Some (message e)\<rparr>,
           None))"

datatype 'a Settled = Fulfilled 'a | Rejected error

definition allSettled :: "(error + 'a) list \<Rightarrow> 'a Settled list" where
  "allSettled promises =
     map (\<lambda>p. case p of Inr v \<Rightarrow> Fulfilled v | Inl e \<Rightarrow> Rejected e) promises"

record Summary =
  results :: "PackageResult Settled list"
  successful :: nat
  failed :: nat
  written :: "(string \<times> HistoricalData) list"

text \<open>
  \<^verbatim>\<open>main\<close>. The packages run interleaved, but each one reads the seed files and its own
  data file and writes its own data file only, so every run sees the environment as it
  was at the start.
\<close>

definition main :: "Env \<Rightarrow> Summary" where
  "main env =
     (let runs = map (tryPackage env) PACKAGES;
          results = allSettled (map fst runs);
          successful = length (filter (\<lambda>r. case r of Fulfilled v \<Rightarrow> success v
                                                | Rejected e \<Rightarrow> False) results);
          failed = length PACKAGES - successful
      in \<lparr>results = results, successful = successful, failed = failed,
          written = List.map_filter snd runs\<rparr>)"

section \<open>The run, as the specification words it\<close>

text \<open>
  These definitions follow the specification's description of the per-package run and
  are compared with \<open>processPackage\<close> below.
\<close>

text \<open>
  A date has download data for a package when its snapshot can be read and holds
  downloads for the package.
\<close>

definition hasData :: "Env \<Rightarrow> string \<Rightarrow> string \<Rightarrow> bool" where
  "hasData env packageName date =
     (case readSeedData env date of
        Inl e \<Rightarrow> False
      | Inr data \<Rightarrow> packageDownloads data packageName \<noteq> None)"

text \<open>
  The first date of a week, in the order of its bucket, that has download data for the
  package.
\<close>

definition firstAvailable :: "Env \<Rightarrow> string \<Rightarrow> string list \<Rightarrow> string option" where
  "firstAvailable env packageName weekDates = find (hasData env packageName) weekDates"

text \<open>
  Merging the observation of one date: its per-version counts at its timestamp.
\<close>

definition mergeDate :: "Env \<Rightarrow> string \<Rightarrow> string \<Rightarrow> HistoricalData \<Rightarrow> HistoricalData" where
  "mergeDate env packageName date s =
     (case readSeedData env date of
        Inl e \<Rightarrow> s
      | Inr data \<Rightarrow>
          (case (packageDownloads data packageName, newDate env (stem date)) of
             (Some perVersionCounts, Some timestamp) \<Rightarrow>
               updateHistoricalData perVersionCounts timestamp s
           | _ \<Rightarrow> s))"

text \<open>
  What one week contributes: the single observation of its first available date, and
  nothing when no date of the week has data.
\<close>

definition weekMerge :: "Env \<Rightarrow> string \<Rightarrow> string list \<Rightarrow> HistoricalData \<Rightarrow> HistoricalData" where
  "weekMerge env packageName weekDates s =
     (case firstAvailable env packageName weekDates of
        None \<Rightarrow> s
      | Some date \<Rightarrow> mergeDate env packageName date s)"

text \<open>
  The dates of a week that are scanned: those in front of the first available date, and
  that date; every date when none has data.
\<close>

definition weekScan :: "Env \<Rightarrow> string \<Rightarrow> string list \<Rightarrow> string list" where
  "weekScan env packageName weekDates =
     takeWhile (\<lambda>date. \<not> hasData env packageName date) weekDates
     @ (case firstAvailable env packageName weekDates of None \<Rightarrow> [] | Some date \<Rightarrow> [date])"

text \<open>
  The buckets in ascending order of their week keys.
\<close>

definition weeksInOrder :: "(string \<times> string list) list \<Rightarrow> string list list" where
  "weeksInOrder weekMap =
     map (\<lambda>weekKey. case map_of weekMap weekKey of None \<Rightarrow> [] | Some weekDates \<Rightarrow> weekDates)
       (sort (map fst weekMap))"

text \<open>
  The whole run as the specification describes it: the weeks in order, one observation
  from each week that has one.
\<close>

definition mergedWeeks ::
  "Env \<Rightarrow> string \<Rightarrow> (string \<times> string list) list \<Rightarrow> HistoricalData \<Rightarrow> Run"
where
  "mergedWeeks env packageName weekMap s =
     \<lparr>series = foldl (\<lambda>s weekDates. weekMerge env packageName weekDates s) s (weeksInOrder weekMap),
      weeksAdded = length (filter (\<lambda>weekDates. firstAvailable env packageName weekDates \<noteq> None)
                      (weeksInOrder weekMap)),
      seedReads = concat (map (weekScan env packageName) (weeksInOrder weekMap))\<rparr>"

text \<open>
  A seed date that does not make the run fail: its identifier parses to a valid
  \<^verbatim>\<open>Date\<close> and reading its file does not throw.
\<close>

definition readable :: "Env \<Rightarrow> string \<Rightarrow> bool" where
  "readable env date = (newDate env (stem date) \<noteq> None \<and> \<not> isl (readSeedData env date))"

section \<open>A concrete scenario\<close>

text \<open>
  Four seed files in UTC: Sunday 2024-01-07 (no data for \<^verbatim>\<open>@mui/material\<close>), Monday
  2024-01-08 and Tuesday 2024-01-09 (both with data), and Sunday 2024-01-14 (with data).
  The data file of \<^verbatim>\<open>@mui/material\<close> holds one later observation, the data file of
  \<^verbatim>\<open>react\<close> does not parse, and no other package has a data file.
\<close>

definition scenarioSeeds :: "(string \<times> Snapshot) list" where
  "scenarioSeeds =
     [(''2024-01-07.json'',
         [(''react'', \<lparr>response_package = ''react'',
                       response_downloads = Some [(''18.2.0'', 5)]\<rparr>)]),
      (''2024-01-08.json'',
         [(''@mui/material'', \<lparr>response_package = ''@mui/material'',
                               response_downloads = Some [(''5.14.0'', 10)]\<rparr>)]),
      (''2024-01-09.json'',
         [(''@mui/material'', \<lparr>response_package = ''@mui/material'',
                               response_downloads = Some [(''5.14.0'', 99)]\<rparr>)]),
      (''2024-01-14.json'',
         [(''@mui/material'', \<lparr>response_package = ''@mui/material'',
                               response_downloads = Some [(''5.14.0'', 20)]\<rparr>)])]"

definition scenarioSeries :: HistoricalData where
  "scenarioSeries =
     \<lparr>package = ''@mui/material'', timestamps = [1705795200000],
      downloads = [(''5.14.0'', [30])]\<rparr>"

definition scenarioEnv :: Env where
  "scenarioEnv =
     \<lparr>tzOffset = 0,
      newDate = map_of [(''2024-01-07'', 1704585600000), (''2024-01-08'', 1704672000000),
                        (''2024-01-09'', 1704758400000), (''2024-01-14'', 1705190400000)],
      readdirSeed = Inr (Some [''2024-01-14.json'', ''2024-01-08.json'', ''2024-01-09.json'',
                               ''2024-01-07.json'']),
      readSeedFile = (\<lambda>file. Inr (map_of scenarioSeeds file)),
      readDataFile = (\<lambda>packageName.
         if packageName = ''@mui/material'' then Inr (Some scenarioSeries)
         else if packageName = ''react'' then Inl (Thrown ''Unexpected end of JSON input'')
         else Inr None),
      mkdirError = (\<lambda>packageName. None),
      writeError = (\<lambda>packageName. None)\<rparr>"

section \<open>Properties of the primitives\<close>

lemma findIndex_bounds: "- 1 \<le> findIndex p xs \<and> findIndex p xs < int (length xs)"
  by (induction xs) (auto simp: Let_def)

lemma findIndex_neg_iff: "findIndex p xs < 0 \<longleftrightarrow> (\<forall>x\<in>set xs. \<not> p x)"
  by (induction xs) (use findIndex_bounds in \<open>auto simp: Let_def\<close>)

lemma findIndex_neg_eq: "findIndex p xs < 0 \<Longrightarrow> findIndex p xs = - 1"
  using findIndex_bounds [of p xs] by simp

lemma findIndex_hit:
  "0 \<le> findIndex p xs \<Longrightarrow> p (xs ! nat (findIndex p xs))"
  by (induction xs) (auto simp: Let_def nat_add_distrib split: if_splits)

lemma findIndex_first:
  "0 \<le> findIndex p xs \<Longrightarrow> \<forall>x\<in>set (take (nat (findIndex p xs)) xs). \<not> p x"
  by (induction xs) (auto simp: Let_def nat_add_distrib split: if_splits)

lemma findIndex_insert:
  "\<forall>y\<in>set (take k xs). \<not> p y \<Longrightarrow> p x \<Longrightarrow> k \<le> length xs \<Longrightarrow>
   findIndex p (take k xs @ x # drop k xs) = int k"
proof (induction xs arbitrary: k)
  case Nil then show ?case by simp
next
  case (Cons a xs)
  show ?case
  proof (cases k)
    case 0 with Cons.prems show ?thesis by simp
  next
    case (Suc j)
    with Cons.prems have "\<not> p a" "\<forall>y\<in>set (take j xs). \<not> p y" "j \<le> length xs" by auto
    with Cons.IH [of j] Cons.prems Suc show ?thesis by (simp add: Let_def)
  qed
qed

lemma splice_int: "splice (int k) x xs = take k xs @ x # drop k xs"
  by (simp add: splice_def spliceStart_def min_def)

lemma splice_neg1: "splice (- 1) x xs = take (length xs - 1) xs @ x # drop (length xs - 1) xs"
proof -
  have "spliceStart (- 1) (length xs) = length xs - 1"
    by (simp add: spliceStart_def nat_diff_distrib' max_def)
  then show ?thesis by (simp add: splice_def Let_def)
qed

lemma spliceStart_le: "spliceStart i n \<le> n"
  by (auto simp: spliceStart_def)

lemma length_splice: "length (splice i x xs) = Suc (length xs)"
  by (simp add: splice_def Let_def)

lemma subseq_splice: "subseq xs (splice i x xs)"
proof -
  let ?k = "spliceStart i (length xs)"
  have "subseq (drop ?k xs) (x # drop ?k xs)"
    by (rule list_emb_Cons) (rule subseq_order.refl)
  then have "subseq (take ?k xs @ drop ?k xs) (take ?k xs @ x # drop ?k xs)"
    by (rule list_emb_append_mono [OF subseq_order.refl])
  then show ?thesis by (simp add: splice_def Let_def)
qed

lemma map_of_assign: "map_of (assign k v ps) = (map_of ps)(k \<mapsto> v)"
  by (induction ps) auto

lemma map_of_fillMissing:
  "map_of (fillMissing i nd dl) v =
     map_option (\<lambda>arr. if falsy (map_of nd v) then splice i 0 arr else arr) (map_of dl v)"
  by (induction dl) (auto simp: fillMissing_def)

lemma map_of_addCounts:
  "distinct (map fst nd) \<Longrightarrow>
   map_of (addCounts i n nd dl) v =
     (case map_of nd v of
        None \<Rightarrow> map_of dl v
      | Some c \<Rightarrow> Some (case map_of dl v of None \<Rightarrow> replicate n 0 | Some arr \<Rightarrow> splice i c arr))"
proof (induction nd arbitrary: dl)
  case Nil
  then show ?case by simp
next
  case (Cons e nd)
  obtain version count where e: "e = (version, count)" by (cases e)
  from Cons.prems e have fresh: "map_of nd version = None" and d: "distinct (map fst nd)"
    by (auto simp: map_of_eq_None_iff)
  show ?case
    using Cons.IH [OF d] fresh
    by (auto simp: e map_of_assign split: option.splits)
qed

lemma addCounts_keeps:
  "map_of dl v = Some arr \<Longrightarrow>
   \<exists>arr'. map_of (addCounts i n nd dl) v = Some arr' \<and> subseq arr arr'"
proof (induction nd arbitrary: dl arr)
  case Nil
  then show ?case by auto
next
  case (Cons e nd)
  obtain version count where e: "e = (version, count)" by (cases e)
  let ?dl = "case map_of dl version of
          None \<Rightarrow> assign version (replicate n 0) dl
        | Some a \<Rightarrow> assign version (splice i count a) dl"
  have "\<exists>a. map_of ?dl v = Some a \<and> subseq arr a"
    using Cons.prems by (auto simp: map_of_assign subseq_splice split: option.splits)
  then obtain a where a: "map_of ?dl v = Some a" "subseq arr a" by blast
  from Cons.IH [OF a(1)] obtain arr' where
    "map_of (addCounts i n nd ?dl) v = Some arr'" "subseq a arr'" by blast
  with a(2) show ?case
    by (auto simp: e intro: subseq_order.trans)
qed

lemma fillMissing_keeps:
  "map_of dl v = Some arr \<Longrightarrow>
   \<exists>arr'. map_of (fillMissing i nd dl) v = Some arr' \<and> subseq arr arr'"
  by (simp add: map_of_fillMissing subseq_splice)

lemma findIndex_after_splice:
  fixes t :: int
  defines "p \<equiv> (\<lambda>value. value \<ge> t)"
  shows "findIndex p (splice (findIndex p T) t T) = int (spliceStart (findIndex p T) (length T))"
proof -
  let ?i = "findIndex p T"
  let ?k = "spliceStart ?i (length T)"
  have before: "\<forall>y\<in>set (take ?k T). \<not> p y"
  proof (cases "0 \<le> ?i")
    case True
    with findIndex_bounds [of p T] have "?k = nat ?i" by (simp add: spliceStart_def)
    with findIndex_first [OF True] show ?thesis by simp
  next
    case False
    then have "?i < 0" by simp
    then have "\<forall>x\<in>set T. \<not> p x" by (simp only: findIndex_neg_iff)
    then show ?thesis by (meson in_set_takeD)
  qed
  have "p t" by (simp add: p_def)
  from findIndex_insert [OF before this spliceStart_le]
  show ?thesis by (simp add: splice_def Let_def)
qed

lemma nth_splice_start: "splice i x xs ! spliceStart i (length xs) = x"
  by (simp add: splice_def Let_def nth_append spliceStart_le)

lemma update_idem:
  "updateHistoricalData nd t (updateHistoricalData nd t s) = updateHistoricalData nd t s"
proof -
  let ?p = "\<lambda>value. value \<ge> t"
  let ?i = "findIndex ?p (timestamps s)"
  show ?thesis
  proof (cases "?i \<ge> 0 \<and> timestamps s ! nat ?i = t")
    case True
    then show ?thesis by (simp add: updateHistoricalData_def)
  next
    case False
    let ?T = "splice ?i t (timestamps s)"
    have T: "timestamps (updateHistoricalData nd t s) = ?T"
      using False by (auto simp: updateHistoricalData_def Let_def)
    have "findIndex ?p ?T = int (spliceStart ?i (length (timestamps s)))"
      by (rule findIndex_after_splice)
    moreover have "?T ! spliceStart ?i (length (timestamps s)) = t"
      by (rule nth_splice_start)
    ultimately have "findIndex ?p ?T \<ge> 0 \<and> ?T ! nat (findIndex ?p ?T) = t" by simp
    then show ?thesis
      unfolding updateHistoricalData_def [of nd t "updateHistoricalData nd t s"] T
      by (simp add: Let_def)
  qed
qed

section \<open>Properties of the merge\<close>

lemma update_noop:
  "findIndex (\<lambda>value. value \<ge> t) (timestamps s) = int k \<Longrightarrow> timestamps s ! k = t \<Longrightarrow>
   updateHistoricalData nd t s = s"
  by (simp add: updateHistoricalData_def)

lemma update_changed:
  assumes "\<not> (findIndex (\<lambda>value. value \<ge> t) (timestamps s) \<ge> 0 \<and>
              timestamps s ! nat (findIndex (\<lambda>value. value \<ge> t) (timestamps s)) = t)"
  shows "updateHistoricalData nd t s =
     s\<lparr>timestamps := splice (findIndex (\<lambda>value. value \<ge> t) (timestamps s)) t (timestamps s),
       downloads := fillMissing (findIndex (\<lambda>value. value \<ge> t) (timestamps s)) nd
         (addCounts (findIndex (\<lambda>value. value \<ge> t) (timestamps s))
            (Suc (length (timestamps s))) nd (downloads s))\<rparr>"
  using assms by (auto simp: updateHistoricalData_def Let_def length_splice)

lemma update_found:
  assumes "findIndex (\<lambda>value. value \<ge> t) (timestamps s) = int k" and "timestamps s ! k \<noteq> t"
  shows "updateHistoricalData nd t s =
     s\<lparr>timestamps := take k (timestamps s) @ t # drop k (timestamps s),
       downloads := fillMissing (int k) nd (addCounts (int k) (Suc (length (timestamps s))) nd (downloads s))\<rparr>"
proof -
  have "\<not> (findIndex (\<lambda>value. value \<ge> t) (timestamps s) \<ge> 0 \<and>
              timestamps s ! nat (findIndex (\<lambda>value. value \<ge> t) (timestamps s)) = t)"
    using assms by simp
  from update_changed [OF this] show ?thesis by (simp add: assms(1) splice_int)
qed

lemma sorted_insert_found:
  fixes t :: int
  assumes srt: "sorted_wrt (<) T"
    and k: "findIndex (\<lambda>value. value \<ge> t) T = int k" and ne: "T ! k \<noteq> t"
  shows "sorted_wrt (<) (take k T @ t # drop k T)"
proof -
  have klt: "k < length T" using findIndex_bounds [of "\<lambda>value. value \<ge> t" T] k by simp
  have i0: "0 \<le> findIndex (\<lambda>value. value \<ge> t) T" using k by simp
  have before: "\<forall>x\<in>set (take k T). x < t"
    using findIndex_first [OF i0] k by auto
  have "T ! k \<ge> t" using findIndex_hit [OF i0] k by simp
  with ne have gt: "t < T ! k" by simp
  have split: "T = take k T @ T ! k # drop (Suc k) T"
    using klt by (simp add: id_take_nth_drop [symmetric])
  have d: "drop k T = T ! k # drop (Suc k) T" using klt by (simp add: Cons_nth_drop_Suc)
  have s1: "sorted_wrt (<) (take k T)" and s2: "sorted_wrt (<) (drop k T)"
    using srt by (simp_all add: sorted_wrt_take sorted_wrt_drop)
  from s2 d have "\<forall>y\<in>set (drop (Suc k) T). T ! k < y" by simp
  with gt have after: "\<forall>y\<in>set (drop k T). t < y" by (subst d) auto
  from before after have "\<forall>x\<in>set (take k T). \<forall>y\<in>set (t # drop k T). x < y" by fastforce
  with s1 s2 after show ?thesis by (simp add: sorted_wrt_append)
qed

text \<open>
  Where the search finds a position, the merge keeps the timestamps strictly increasing.
\<close>

lemma sorted_preserved_when_found:
  assumes "sorted_wrt (<) (timestamps s)"
    and "findIndex (\<lambda>value. value \<ge> t) (timestamps s) = int k"
  shows "sorted_wrt (<) (timestamps (updateHistoricalData nd t s))"
proof (cases "timestamps s ! k = t")
  case True
  with assms show ?thesis by (simp add: update_noop)
next
  case False
  with assms show ?thesis by (simp add: update_found sorted_insert_found)
qed

lemma map_of_downloads_found:
  assumes "distinct (map fst nd)"
    and "findIndex (\<lambda>value. value \<ge> t) (timestamps s) = int k" and "timestamps s ! k \<noteq> t"
  shows "map_of (downloads (updateHistoricalData nd t s)) v =
     (case map_of nd v of
        None \<Rightarrow> map_option (\<lambda>arr. take k arr @ 0 # drop k arr) (map_of (downloads s) v)
      | Some c \<Rightarrow>
          (case map_of (downloads s) v of
             None \<Rightarrow> Some (if c = 0 then take k (replicate (Suc (length (timestamps s))) 0) @ 0 # drop k (replicate (Suc (length (timestamps s))) 0)
                          else replicate (Suc (length (timestamps s))) 0)
           | Some arr \<Rightarrow> Some (if c = 0 then take k (take k arr @ 0 # drop k arr) @ 0 # drop k (take k arr @ 0 # drop k arr)
                              else take k arr @ c # drop k arr)))"
  by (simp add: update_found [OF assms(2,3)] map_of_fillMissing map_of_addCounts [OF assms(1)]
        falsy_def splice_int split: option.splits)

text \<open>
  Where the search finds an insertion position \<open>k\<close> (the first index whose timestamp is
  at least the incoming one) and the timestamp there differs from the incoming one, the
  timestamp is inserted at \<open>k\<close>; every version that has an array and is missing from the
  observation gets exactly one \<open>0\<close> inserted at \<open>k\<close>; every version that has an array
  and is observed with a non-zero count gets exactly that count inserted at \<open>k\<close>.
  (\<open>take k arr @ x # drop k arr\<close> is \<open>arr\<close> with \<open>x\<close> inserted at index \<open>k\<close>, at the end
  when \<open>arr\<close> is shorter than \<open>k\<close>, as \<^verbatim>\<open>splice\<close> does.) The keys of the observation are
  distinct, as the keys of a JavaScript object are.
\<close>

theorem zero_fill_at_found_position:
  assumes "distinct (map fst nd)"
    and "findIndex (\<lambda>value. value \<ge> t) (timestamps s) = int k"
    and "timestamps s ! k \<noteq> t"
  shows "timestamps (updateHistoricalData nd t s) = take k (timestamps s) @ t # drop k (timestamps s)
    \<and> (\<forall>v arr. map_of (downloads s) v = Some arr \<and> map_of nd v = None \<longrightarrow>
         map_of (downloads (updateHistoricalData nd t s)) v = Some (take k arr @ 0 # drop k arr))
    \<and> (\<forall>v arr c. map_of (downloads s) v = Some arr \<and> map_of nd v = Some c \<and> c \<noteq> 0 \<longrightarrow>
         map_of (downloads (updateHistoricalData nd t s)) v = Some (take k arr @ c # drop k arr))"
proof (intro conjI allI impI)
  show "timestamps (updateHistoricalData nd t s) = take k (timestamps s) @ t # drop k (timestamps s)"
    by (simp add: update_found [OF assms(2,3)])
next
  fix v arr
  assume "map_of (downloads s) v = Some arr \<and> map_of nd v = None"
  then show "map_of (downloads (updateHistoricalData nd t s)) v = Some (take k arr @ 0 # drop k arr)"
    by (simp add: map_of_downloads_found [OF assms])
next
  fix v arr c
  assume "map_of (downloads s) v = Some arr \<and> map_of nd v = Some c \<and> c \<noteq> 0"
  then show "map_of (downloads (updateHistoricalData nd t s)) v = Some (take k arr @ c # drop k arr)"
    by (simp add: map_of_downloads_found [OF assms])
qed

text \<open>
  A concrete call of this kind: inserting \<open>150\<close> between \<open>100\<close> and \<open>200\<close>.
\<close>

theorem zero_fill_at_found_position_witness:
  "timestamps (updateHistoricalData [(''5.14.0'', 3)] 150
      \<lparr>package = ''react'', timestamps = [100, 200],
       downloads = [(''5.14.0'', [7, 8]), (''5.13.7'', [1, 2])]\<rparr>) = [100, 150, 200]
   \<and> map_of (downloads (updateHistoricalData [(''5.14.0'', 3)] 150
      \<lparr>package = ''react'', timestamps = [100, 200],
       downloads = [(''5.14.0'', [7, 8]), (''5.13.7'', [1, 2])]\<rparr>)) ''5.13.7'' = Some [1, 0, 2]
   \<and> map_of (downloads (updateHistoricalData [(''5.14.0'', 3)] 150
      \<lparr>package = ''react'', timestamps = [100, 200],
       downloads = [(''5.14.0'', [7, 8]), (''5.13.7'', [1, 2])]\<rparr>)) ''5.14.0'' = Some [7, 3, 8]"
proof -
  let ?nd = "[(''5.14.0'', 3::int)]"
  let ?s = "\<lparr>package = ''react'', timestamps = [100, 200],
       downloads = [(''5.14.0'', [7, 8]), (''5.13.7'', [1, 2])]\<rparr>"
  have h1: "distinct (map fst ?nd)" by simp
  have h2: "findIndex (\<lambda>value. value \<ge> 150) (timestamps ?s) = int 1" by simp
  have h3: "timestamps ?s ! 1 \<noteq> 150" by simp
  note th = zero_fill_at_found_position [OF h1 h2 h3]
  from th have a: "timestamps (updateHistoricalData ?nd 150 ?s) = [100, 150, 200]" by simp
  from th have "map_of (downloads ?s) ''5.13.7'' = Some [1, 2] \<and> map_of ?nd ''5.13.7'' = None \<longrightarrow>
         map_of (downloads (updateHistoricalData ?nd 150 ?s)) ''5.13.7'' = Some (take 1 [1, 2] @ 0 # drop 1 [1, 2])"
    by blast
  then have b: "map_of (downloads (updateHistoricalData ?nd 150 ?s)) ''5.13.7'' = Some [1, 0, 2]" by simp
  from th have "map_of (downloads ?s) ''5.14.0'' = Some [7, 8] \<and> map_of ?nd ''5.14.0'' = Some 3 \<and> (3::int) \<noteq> 0 \<longrightarrow>
         map_of (downloads (updateHistoricalData ?nd 150 ?s)) ''5.14.0'' = Some (take 1 [7, 8] @ 3 # drop 1 [7, 8])"
    by blast
  then have c: "map_of (downloads (updateHistoricalData ?nd 150 ?s)) ''5.14.0'' = Some [7, 3, 8]" by simp
  from a b c show ?thesis by blast
qed

lemma keys_assign: "fst ` set (assign k v ps) = insert k (fst ` set ps)"
proof (induction ps)
  case Nil
  show ?case by simp
next
  case (Cons e ps)
  obtain k' v' where e: "e = (k', v')" by (cases e)
  show ?case
  proof (cases "k' = k")
    case True
    then show ?thesis by (simp add: e)
  next
    case False
    with Cons.IH show ?thesis by (simp add: e insert_commute)
  qed
qed

lemma distinct_assign: "distinct (map fst ps) \<Longrightarrow> distinct (map fst (assign k v ps))"
  by (induction ps) (auto simp: keys_assign)

lemma distinct_addCounts:
  "distinct (map fst dl) \<Longrightarrow> distinct (map fst (addCounts i n nd dl))"
  by (induction nd arbitrary: dl) (auto simp: distinct_assign split: option.splits)

lemma keys_fillMissing: "map fst (fillMissing i nd dl) = map fst dl"
  by (induction dl) (auto simp: fillMissing_def)

lemma list_all_map_of:
  "distinct (map fst dl) \<Longrightarrow>
   list_all P dl \<longleftrightarrow> (\<forall>v arr. map_of dl v = Some arr \<longrightarrow> P (v, arr))"
  by (auto simp: list_all_iff)

lemma map_of_downloads_changed:
  assumes "distinct (map fst nd)"
    and "\<not> (findIndex (\<lambda>value. value \<ge> t) (timestamps s) \<ge> 0 \<and>
              timestamps s ! nat (findIndex (\<lambda>value. value \<ge> t) (timestamps s)) = t)"
  shows "map_of (downloads (updateHistoricalData nd t s)) v =
     (case map_of nd v of
        None \<Rightarrow> map_option (splice (findIndex (\<lambda>value. value \<ge> t) (timestamps s)) 0) (map_of (downloads s) v)
      | Some c \<Rightarrow>
          (let arr = (case map_of (downloads s) v of
             None \<Rightarrow> replicate (Suc (length (timestamps s))) 0
           | Some a \<Rightarrow> splice (findIndex (\<lambda>value. value \<ge> t) (timestamps s)) c a)
           in Some (if c = 0 then splice (findIndex (\<lambda>value. value \<ge> t) (timestamps s)) 0 arr else arr)))"
  by (simp add: update_changed [OF assms(2)] map_of_fillMissing map_of_addCounts [OF assms(1)]
        falsy_def Let_def split: option.splits)

text \<open>
  With non-zero counts only, the merge keeps the index alignment.
\<close>

lemma aligned_preserved_nonzero:
  assumes al: "aligned s" and dk: "distinct (map fst (downloads s))"
    and dn: "distinct (map fst nd)" and nz: "\<forall>c\<in>snd ` set nd. c \<noteq> 0"
  shows "aligned (updateHistoricalData nd t s)"
proof (cases "findIndex (\<lambda>value. value \<ge> t) (timestamps s) \<ge> 0 \<and>
              timestamps s ! nat (findIndex (\<lambda>value. value \<ge> t) (timestamps s)) = t")
  case True
  with al show ?thesis by (simp add: updateHistoricalData_def)
next
  case False
  let ?i = "findIndex (\<lambda>value. value \<ge> t) (timestamps s)"
  let ?s = "updateHistoricalData nd t s"
  have len: "length (timestamps ?s) = Suc (length (timestamps s))"
    by (simp add: update_changed [OF False] length_splice)
  have dk': "distinct (map fst (downloads ?s))"
    by (simp add: update_changed [OF False] keys_fillMissing distinct_addCounts dk)
  have old: "\<And>v a. map_of (downloads s) v = Some a \<Longrightarrow> length a = length (timestamps s)"
    using al dk by (simp add: aligned_def list_all_map_of)
  have "\<And>v arr. map_of (downloads ?s) v = Some arr \<Longrightarrow> length arr = Suc (length (timestamps s))"
  proof -
    fix v arr
    assume a: "map_of (downloads ?s) v = Some arr"
    show "length arr = Suc (length (timestamps s))"
    proof (cases "map_of nd v")
      case None
      with a old show ?thesis
        by (auto simp: map_of_downloads_changed [OF dn False] length_splice)
    next
      case (Some c)
      then have "(v, c) \<in> set nd" by (rule map_of_SomeD)
      with nz have "c \<noteq> 0" by force
      with a Some old show ?thesis
        by (auto simp: map_of_downloads_changed [OF dn False] length_splice split: option.splits)
    qed
  qed
  with len dk' show ?thesis by (simp add: aligned_def list_all_map_of)
qed

text \<open>
  Claim C5. Merging the same observation twice gives exactly the series that merging it
  once gives, for every series and every observation; and when the found position already
  holds the incoming timestamp the call changes nothing.
\<close>

theorem merge_idempotent:
  "updateHistoricalData nd t (updateHistoricalData nd t s) = updateHistoricalData nd t s
   \<and> (\<forall>k. findIndex (\<lambda>value. value \<ge> t) (timestamps s) = int k \<and> timestamps s ! k = t
          \<longrightarrow> updateHistoricalData nd t s = s)"
  by (simp add: update_idem update_noop)

text \<open>
  C5 at a concrete series: a second merge of timestamp \<open>150\<close> changes nothing, and a merge
  of the timestamp \<open>200\<close>, which is present, is skipped.
\<close>

theorem merge_idempotent_witness:
  "updateHistoricalData [(''5.14.0'', 3)] 150
     (updateHistoricalData [(''5.14.0'', 3)] 150
        \<lparr>package = ''react'', timestamps = [100, 200], downloads = [(''5.14.0'', [7, 8])]\<rparr>)
   = \<lparr>package = ''react'', timestamps = [100, 150, 200], downloads = [(''5.14.0'', [7, 3, 8])]\<rparr>
   \<and> updateHistoricalData [(''5.14.0'', 3)] 200
        \<lparr>package = ''react'', timestamps = [100, 200], downloads = [(''5.14.0'', [7, 8])]\<rparr>
   = \<lparr>package = ''react'', timestamps = [100, 200], downloads = [(''5.14.0'', [7, 8])]\<rparr>"
proof -
  let ?nd = "[(''5.14.0'', 3::int)]"
  let ?s = "\<lparr>package = ''react'', timestamps = [100, 200], downloads = [(''5.14.0'', [7, 8])]\<rparr>"
  have once: "updateHistoricalData ?nd 150 ?s
      = \<lparr>package = ''react'', timestamps = [100, 150, 200], downloads = [(''5.14.0'', [7, 3, 8])]\<rparr>"
    by (simp add: updateHistoricalData_def splice_def spliceStart_def fillMissing_def falsy_def)
  have found: "findIndex (\<lambda>value. value \<ge> 200) (timestamps ?s) = int 1 \<and> timestamps ?s ! 1 = 200"
    by simp
  from merge_idempotent [of ?nd 150 ?s] once
  have a: "updateHistoricalData ?nd 150 (updateHistoricalData ?nd 150 ?s)
      = \<lparr>package = ''react'', timestamps = [100, 150, 200], downloads = [(''5.14.0'', [7, 3, 8])]\<rparr>"
    by simp
  from merge_idempotent [of ?nd 200 ?s] found
  have b: "updateHistoricalData ?nd 200 ?s = ?s" by blast
  from a b show ?thesis by blast
qed

lemma timestamps_kept: "subseq (timestamps s) (timestamps (updateHistoricalData nd t s))"
  by (simp add: updateHistoricalData_def Let_def subseq_splice)

lemma downloads_kept:
  assumes "map_of (downloads s) v = Some arr"
  shows "\<exists>arr'. map_of (downloads (updateHistoricalData nd t s)) v = Some arr' \<and> subseq arr arr'"
proof (cases "findIndex (\<lambda>value. value \<ge> t) (timestamps s) \<ge> 0 \<and>
              timestamps s ! nat (findIndex (\<lambda>value. value \<ge> t) (timestamps s)) = t")
  case True
  with assms show ?thesis by (simp add: updateHistoricalData_def)
next
  case False
  let ?i = "findIndex (\<lambda>value. value \<ge> t) (timestamps s)"
  from addCounts_keeps [OF assms] obtain a where
    a: "map_of (addCounts ?i (Suc (length (timestamps s))) nd (downloads s)) v = Some a" "subseq arr a"
    by blast
  from fillMissing_keeps [OF a(1)] obtain arr' where
    "map_of (fillMissing ?i nd (addCounts ?i (Suc (length (timestamps s))) nd (downloads s))) v = Some arr'"
    "subseq a arr'" by blast
  with a(2) show ?thesis
    by (auto simp: update_changed [OF False] intro: subseq_order.trans)
qed

text \<open>
  Claim C10. A merge only inserts: the package name is unchanged, the old timestamps are a
  subsequence of the new ones, no version key disappears, and the old array of every
  version is a subsequence of its new array (no entry is deleted or overwritten).
\<close>

theorem merge_insert_only:
  "package (updateHistoricalData nd t s) = package s
   \<and> subseq (timestamps s) (timestamps (updateHistoricalData nd t s))
   \<and> set (map fst (downloads s)) \<subseteq> set (map fst (downloads (updateHistoricalData nd t s)))
   \<and> (\<forall>v arr. map_of (downloads s) v = Some arr \<longrightarrow>
        (\<exists>arr'. map_of (downloads (updateHistoricalData nd t s)) v = Some arr' \<and> subseq arr arr'))"
proof (intro conjI allI impI)
  show "package (updateHistoricalData nd t s) = package s"
    by (simp add: updateHistoricalData_def Let_def)
  show "subseq (timestamps s) (timestamps (updateHistoricalData nd t s))"
    by (rule timestamps_kept)
  show "set (map fst (downloads s)) \<subseteq> set (map fst (downloads (updateHistoricalData nd t s)))"
  proof
    fix v assume "v \<in> set (map fst (downloads s))"
    then obtain arr where "map_of (downloads s) v = Some arr"
      by (metis domD dom_map_of_conv_image_fst set_map)
    from downloads_kept [OF this] obtain arr' where
      "map_of (downloads (updateHistoricalData nd t s)) v = Some arr'" by blast
    then show "v \<in> set (map fst (downloads (updateHistoricalData nd t s)))"
      by (metis domI dom_map_of_conv_image_fst set_map)
  qed
next
  fix v arr
  assume "map_of (downloads s) v = Some arr"
  then show "\<exists>arr'. map_of (downloads (updateHistoricalData nd t s)) v = Some arr' \<and> subseq arr arr'"
    by (rule downloads_kept)
qed

text \<open>
  C10 at a concrete call, one that brings a new version, a zero count and a new last
  timestamp.
\<close>

theorem merge_insert_only_witness:
  "package (updateHistoricalData [(''5.14.0'', 0), (''6.0.0'', 4)] 300
      \<lparr>package = ''react'', timestamps = [100, 200],
       downloads = [(''5.14.0'', [7, 8]), (''5.13.7'', [1, 2])]\<rparr>) = ''react''
   \<and> map_of (downloads \<lparr>package = ''react'', timestamps = [100, 200],
       downloads = [(''5.14.0'', [7, 8]), (''5.13.7'', [1, 2])]\<rparr>) ''5.14.0'' = Some [7, 8]
   \<and> (\<exists>arr'. map_of (downloads (updateHistoricalData [(''5.14.0'', 0), (''6.0.0'', 4)] 300
      \<lparr>package = ''react'', timestamps = [100, 200],
       downloads = [(''5.14.0'', [7, 8]), (''5.13.7'', [1, 2])]\<rparr>)) ''5.14.0'' = Some arr'
        \<and> subseq [7, 8] arr')"
proof -
  let ?nd = "[(''5.14.0'', 0::int), (''6.0.0'', 4)]"
  let ?s = "\<lparr>package = ''react'', timestamps = [100, 200],
       downloads = [(''5.14.0'', [7, 8]), (''5.13.7'', [1, 2])]\<rparr>"
  have h: "map_of (downloads ?s) ''5.14.0'' = Some [7, 8]" by simp
  note th = merge_insert_only [of ?nd 300 ?s]
  from th have a: "package (updateHistoricalData ?nd 300 ?s) = ''react''" by simp
  from th h have "\<exists>arr'. map_of (downloads (updateHistoricalData ?nd 300 ?s)) ''5.14.0'' = Some arr'
        \<and> subseq [7, 8] arr'" by blast
  with a h show ?thesis by blast
qed

text \<open>
  Claim C1 at the failing input. Every timestamp of \<open>[100, 200]\<close> is smaller than \<open>300\<close>, so
  \<^verbatim>\<open>findIndex\<close> answers \<open>-1\<close>; \<^verbatim>\<open>splice(-1, 0, 300)\<close> then inserts in front of the last
  element and not at the end.
\<close>

theorem append_lands_before_last:
  "findIndex (\<lambda>value. value \<ge> 300) [100, 200 :: int] = - 1
   \<and> timestamps (updateHistoricalData [] 300
        \<lparr>package = ''react'', timestamps = [100, 200], downloads = []\<rparr>) = [100, 300, 200]"
  by (simp add: updateHistoricalData_def splice_def spliceStart_def fillMissing_def)

text \<open>
  Claim C2 at the failing input: the timestamps are strictly increasing before the call
  and are not after it.
\<close>

theorem append_breaks_sorted_order:
  "sorted_wrt (<) (timestamps \<lparr>package = ''react'', timestamps = [100, 200],
        downloads = [(''5.14.0'', [7, 8])]\<rparr>)
   \<and> \<not> sorted_wrt (<) (timestamps (updateHistoricalData [(''5.14.0'', 9)] 300
        \<lparr>package = ''react'', timestamps = [100, 200], downloads = [(''5.14.0'', [7, 8])]\<rparr>))"
  by (simp add: updateHistoricalData_def splice_def spliceStart_def fillMissing_def falsy_def)

text \<open>
  A version that is new to the series and observed with a non-zero count ends with an
  array of zeros only, in every call that is not skipped.
\<close>

lemma new_version_all_zero:
  assumes "distinct (map fst nd)"
    and "\<not> (findIndex (\<lambda>value. value \<ge> t) (timestamps s) \<ge> 0 \<and>
              timestamps s ! nat (findIndex (\<lambda>value. value \<ge> t) (timestamps s)) = t)"
    and "map_of (downloads s) v = None" and "map_of nd v = Some c" and "c \<noteq> 0"
  shows "map_of (downloads (updateHistoricalData nd t s)) v
           = Some (replicate (Suc (length (timestamps s))) 0)"
  by (simp add: map_of_downloads_changed [OF assms(1,2)] assms(3-5))

text \<open>
  Claim C3 at two failing inputs. A version that is new to the series gets an array of
  zeros of the new length and its observed count is not stored: \<open>[0]\<close> where the claim
  has \<open>[150000]\<close> (an empty series), and \<open>[0, 0]\<close> where the claim has \<open>[150000, 0]\<close>.
\<close>

theorem new_version_count_dropped:
  "updateHistoricalData [(''5.14.0'', 150000)] 1704240000000
      \<lparr>package = ''@mui/material'', timestamps = [], downloads = []\<rparr>
     = \<lparr>package = ''@mui/material'', timestamps = [1704240000000],
        downloads = [(''5.14.0'', [0])]\<rparr>
   \<and> updateHistoricalData [(''5.14.0'', 150000)] 100
      \<lparr>package = ''@mui/material'', timestamps = [200], downloads = [(''5.13.7'', [7])]\<rparr>
     = \<lparr>package = ''@mui/material'', timestamps = [100, 200],
        downloads = [(''5.13.7'', [0, 7]), (''5.14.0'', [0, 0])]\<rparr>"
  by (simp add: updateHistoricalData_def splice_def spliceStart_def fillMissing_def falsy_def)

text \<open>
  Claim C4 at the failing input. A version observed with count \<open>0\<close> gets its \<open>0\<close> from the
  first loop and a second \<open>0\<close> from the second loop, since \<^verbatim>\<open>!newDownloads[version]\<close> holds
  for a stored \<open>0\<close>: its array has three entries for two timestamps.
\<close>

theorem zero_count_breaks_alignment:
  "aligned \<lparr>package = ''react'', timestamps = [200], downloads = [(''5.14.0'', [7])]\<rparr>
   \<and> updateHistoricalData [(''5.14.0'', 0)] 100
        \<lparr>package = ''react'', timestamps = [200], downloads = [(''5.14.0'', [7])]\<rparr>
     = \<lparr>package = ''react'', timestamps = [100, 200], downloads = [(''5.14.0'', [0, 0, 7])]\<rparr>
   \<and> \<not> aligned (updateHistoricalData [(''5.14.0'', 0)] 100
        \<lparr>package = ''react'', timestamps = [200], downloads = [(''5.14.0'', [7])]\<rparr>)"
  by (simp add: aligned_def updateHistoricalData_def splice_def spliceStart_def fillMissing_def falsy_def)

text \<open>
  In every call that is not skipped the arrays are spliced with the same start index as
  the timestamps: a version that is missing from the observation gets one \<open>0\<close>, a version
  observed with a non-zero count gets its count.
\<close>

lemma zero_fill_where_timestamp_goes:
  assumes "distinct (map fst nd)"
    and "\<not> (findIndex (\<lambda>value. value \<ge> t) (timestamps s) \<ge> 0 \<and>
              timestamps s ! nat (findIndex (\<lambda>value. value \<ge> t) (timestamps s)) = t)"
  shows "timestamps (updateHistoricalData nd t s)
           = splice (findIndex (\<lambda>value. value \<ge> t) (timestamps s)) t (timestamps s)
    \<and> (\<forall>v arr. map_of (downloads s) v = Some arr \<and> map_of nd v = None \<longrightarrow>
         map_of (downloads (updateHistoricalData nd t s)) v
           = Some (splice (findIndex (\<lambda>value. value \<ge> t) (timestamps s)) 0 arr))
    \<and> (\<forall>v arr c. map_of (downloads s) v = Some arr \<and> map_of nd v = Some c \<and> c \<noteq> 0 \<longrightarrow>
         map_of (downloads (updateHistoricalData nd t s)) v
           = Some (splice (findIndex (\<lambda>value. value \<ge> t) (timestamps s)) c arr))"
proof (intro conjI allI impI)
  show "timestamps (updateHistoricalData nd t s)
           = splice (findIndex (\<lambda>value. value \<ge> t) (timestamps s)) t (timestamps s)"
    by (simp add: update_changed [OF assms(2)])
next
  fix v arr
  assume "map_of (downloads s) v = Some arr \<and> map_of nd v = None"
  then show "map_of (downloads (updateHistoricalData nd t s)) v
           = Some (splice (findIndex (\<lambda>value. value \<ge> t) (timestamps s)) 0 arr)"
    by (simp add: map_of_downloads_changed [OF assms])
next
  fix v arr c
  assume "map_of (downloads s) v = Some arr \<and> map_of nd v = Some c \<and> c \<noteq> 0"
  then show "map_of (downloads (updateHistoricalData nd t s)) v
           = Some (splice (findIndex (\<lambda>value. value \<ge> t) (timestamps s)) c arr)"
    by (simp add: map_of_downloads_changed [OF assms])
qed

text \<open>
  Claim C6 at the failing inputs. A version that has an array and is observed with count
  \<open>0\<close> gets two entries and not exactly its observed count. When every timestamp is
  smaller than the incoming one, \<^verbatim>\<open>findIndex\<close> answers \<open>-1\<close> and the \<open>0\<close> of the omitted
  version, like the count of the observed one, goes in front of the last entry and not
  at the end, which is the insertion position of that call.
\<close>

theorem zero_fill_doubled_or_misplaced:
  "map_of (downloads (updateHistoricalData [(''5.14.0'', 0)] 100
        \<lparr>package = ''react'', timestamps = [200], downloads = [(''5.14.0'', [7])]\<rparr>)) ''5.14.0''
     = Some [0, 0, 7]
   \<and> findIndex (\<lambda>value. value \<ge> 300) [100, 200 :: int] = - 1
   \<and> map_of (downloads (updateHistoricalData [(''5.14.0'', 9)] 300
        \<lparr>package = ''react'', timestamps = [100, 200],
         downloads = [(''5.14.0'', [7, 8]), (''5.13.7'', [1, 2])]\<rparr>)) ''5.13.7''
     = Some [1, 0, 2]
   \<and> map_of (downloads (updateHistoricalData [(''5.14.0'', 9)] 300
        \<lparr>package = ''react'', timestamps = [100, 200],
         downloads = [(''5.14.0'', [7, 8]), (''5.13.7'', [1, 2])]\<rparr>)) ''5.14.0''
     = Some [7, 9, 8]"
  by (simp add: updateHistoricalData_def splice_def spliceStart_def fillMissing_def falsy_def)

section \<open>Week keys\<close>

lemma DAY_pos: "0 < DAY_MILLISECONDS"
  by (simp add: DAY_MILLISECONDS_def)

lemma div_back_days:
  fixes t k D :: int
  assumes "0 < D"
  shows "(t - k * D) div D = t div D - k"
proof (rule int_div_pos_eq [where r = "t mod D"])
  have "D * (t div D) + t mod D = t" by (rule mult_div_mod_eq)
  then show "t - k * D = D * (t div D - k) + t mod D" by (simp add: algebra_simps)
  show "0 \<le> t mod D" using assms by simp
  show "t mod D < D" using assms by simp
qed

lemma local_midnight_day:
  fixes q off D :: int
  assumes "0 < D" and "off \<noteq> 0" and "- D < off" and "off < D"
  shows "((q * D + off) div D * D - off) div D = q - 1"
proof (cases "0 < off")
  case True
  have "(q * D + off) div D = q"
    by (rule int_div_pos_eq [where r = off]) (use True assms in \<open>simp_all add: algebra_simps\<close>)
  moreover have "(q * D - off) div D = q - 1"
    by (rule int_div_pos_eq [where r = "D - off"]) (use True assms in \<open>simp_all add: algebra_simps\<close>)
  ultimately show ?thesis by simp
next
  case False
  with assms have neg: "off < 0" by simp
  have "(q * D + off) div D = q - 1"
    by (rule int_div_pos_eq [where r = "D + off"]) (use neg assms in \<open>simp_all add: algebra_simps\<close>)
  moreover have "((q - 1) * D - off) div D = q - 1"
    by (rule int_div_pos_eq [where r = "- off"]) (use neg assms in \<open>simp_all add: algebra_simps\<close>)
  ultimately show ?thesis by simp
qed

lemma weekday_range: "0 \<le> ((x::int) + 4) mod 7 \<and> (x + 4) mod 7 \<le> 6"
  by presburger

lemma weekday_of_sunday: "((x::int) - (x + 4) mod 7 + 4) mod 7 = 0"
  by presburger

lemma getUTCDay_range: "0 \<le> getUTCDay t \<and> getUTCDay t \<le> 6"
  unfolding getUTCDay_def by (rule weekday_range)

text \<open>
  With local time equal to UTC the week key is the date of the day that lies
  \<open>getUTCDay\<close> days before the day of the input, and that day is a Sunday in the week
  that ends with the input's day.
\<close>

lemma getWeekKey_utc:
  "getWeekKey 0 (Some t) = Inr (toISODate (t div DAY_MILLISECONDS - getUTCDay t))"
  using DAY_pos by (simp add: getWeekKey_def onlyDay_def Let_def div_back_days)

lemma utc_sunday_of_week:
  "getUTCDay ((t div DAY_MILLISECONDS - getUTCDay t) * DAY_MILLISECONDS) = 0
   \<and> t div DAY_MILLISECONDS - 6 \<le> t div DAY_MILLISECONDS - getUTCDay t
   \<and> t div DAY_MILLISECONDS - getUTCDay t \<le> t div DAY_MILLISECONDS"
proof -
  have "(t div DAY_MILLISECONDS - (t div DAY_MILLISECONDS + 4) mod 7 + 4) mod 7 = 0"
    by (rule weekday_of_sunday)
  then have "getUTCDay ((t div DAY_MILLISECONDS - getUTCDay t) * DAY_MILLISECONDS) = 0"
    using DAY_pos by (simp add: getUTCDay_def)
  with getUTCDay_range [of t] show ?thesis by simp
qed

text \<open>
  In any other zone (a fixed offset of less than a day) the week key of a date given as
  a UTC midnight is the day before that Sunday.
\<close>

lemma getWeekKey_local_midnight:
  assumes "t mod DAY_MILLISECONDS = 0" and "off \<noteq> 0"
    and "- DAY_MILLISECONDS < off" and "off < DAY_MILLISECONDS"
  shows "getWeekKey off (Some t) = Inr (toISODate (t div DAY_MILLISECONDS - getUTCDay t - 1))"
proof -
  define q where "q = t div DAY_MILLISECONDS - getUTCDay t"
  have "t = t div DAY_MILLISECONDS * DAY_MILLISECONDS"
    using assms(1) by (metis add.right_neutral div_mult_mod_eq)
  then have u: "t - getUTCDay t * DAY_MILLISECONDS = q * DAY_MILLISECONDS"
    by (simp add: q_def algebra_simps)
  have "onlyDay off (q * DAY_MILLISECONDS) div DAY_MILLISECONDS = q - 1"
    unfolding onlyDay_def by (rule local_midnight_day [OF DAY_pos assms(2-4)])
  then show ?thesis
    by (simp add: getWeekKey_def Let_def u) (simp add: q_def)
qed

text \<open>
  The claim's example in a process whose local time zone is UTC: two week keys,
  2024-01-07 with the first two dates and 2024-01-14 with the third.
\<close>

lemma bucketing_example_utc:
  "batchDatesByWeek 0
     (map_of [(''2024-01-07'', 1704585600000), (''2024-01-08'', 1704672000000),
              (''2024-01-14'', 1705190400000)])
     [''2024-01-07'', ''2024-01-08'', ''2024-01-14'']
   = Inr [(''2024-01-07'', [''2024-01-07'', ''2024-01-08'']),
          (''2024-01-14'', [''2024-01-14''])]"
  by code_simp

text \<open>
  Claim C8 at the failing input. 2024-01-07T00:00:00Z (time value \<open>1704585600000\<close>) is a
  Sunday, and with local time equal to UTC its week key is 2024-01-07. One hour east of
  UTC, and five hours west of it, \<^verbatim>\<open>onlyDay\<close> truncates to a local midnight that lies on
  2024-01-06 in UTC, and \<^verbatim>\<open>toISOString\<close> prints that Saturday; one hour east of UTC the
  three dates of the claim's example get the week keys 2024-01-06 and 2024-01-13.
\<close>

theorem week_key_in_local_time:
  "getUTCDay 1704585600000 = 0
   \<and> getWeekKey 0 (Some 1704585600000) = Inr ''2024-01-07''
   \<and> getWeekKey 3600000 (Some 1704585600000) = Inr ''2024-01-06''
   \<and> getWeekKey (- 18000000) (Some 1704585600000) = Inr ''2024-01-06''
   \<and> batchDatesByWeek 3600000
        (map_of [(''2024-01-07'', 1704585600000), (''2024-01-08'', 1704672000000),
                 (''2024-01-14'', 1705190400000)])
        [''2024-01-07'', ''2024-01-08'', ''2024-01-14'']
      = Inr [(''2024-01-06'', [''2024-01-07'', ''2024-01-08'']),
             (''2024-01-13'', [''2024-01-14''])]"
  by code_simp

section \<open>The per-package run against its specification\<close>

lemma scanWeek_spec:
  assumes "list_all (readable env) weekDates"
  shows "scanWeek env p weekDates run =
     Inr \<lparr>series = weekMerge env p weekDates (series run),
          weeksAdded = weeksAdded run + (if firstAvailable env p weekDates = None then 0 else 1),
          seedReads = seedReads run @ weekScan env p weekDates\<rparr>"
  using assms
proof (induction weekDates arbitrary: run)
  case Nil
  show ?case by (simp add: weekMerge_def firstAvailable_def weekScan_def)
next
  case (Cons date rest)
  from Cons.prems have r: "readable env date" and rest: "list_all (readable env) rest"
    by simp_all
  from r obtain t where t: "newDate env (stem date) = Some t"
    by (auto simp: readable_def)
  from r obtain data where rd: "readSeedData env date = Inr data"
    by (cases "readSeedData env date") (auto simp: readable_def)
  show ?case
  proof (cases "packageDownloads data p")
    case None
    then have nd: "\<not> hasData env p date" by (simp add: hasData_def rd)
    show ?thesis
      using Cons.IH [OF rest, of "run\<lparr>seedReads := seedReads run @ [date]\<rparr>"] nd None
      by (simp add: rd weekMerge_def firstAvailable_def weekScan_def)
  next
    case (Some nd)
    then have hd: "hasData env p date" by (simp add: hasData_def rd)
    show ?thesis
      using hd Some
      by (simp add: rd t weekMerge_def firstAvailable_def weekScan_def mergeDate_def)
  qed
qed

lemma processWeeks_spec:
  assumes "\<forall>k\<in>set weekKeys. \<exists>ds. map_of weekMap k = Some ds \<and> list_all (readable env) ds"
  shows "processWeeks env p weekMap weekKeys run =
     (let weeks = map (\<lambda>weekKey. case map_of weekMap weekKey of None \<Rightarrow> []
                                   | Some weekDates \<Rightarrow> weekDates) weekKeys in
      Inr \<lparr>series = foldl (\<lambda>s weekDates. weekMerge env p weekDates s) (series run) weeks,
           weeksAdded = weeksAdded run
             + length (filter (\<lambda>weekDates. firstAvailable env p weekDates \<noteq> None) weeks),
           seedReads = seedReads run @ concat (map (weekScan env p) weeks)\<rparr>)"
  using assms
proof (induction weekKeys arbitrary: run)
  case Nil
  show ?case by simp
next
  case (Cons k rest)
  from Cons.prems obtain ds where
    ds: "map_of weekMap k = Some ds" and ok: "list_all (readable env) ds" by auto
  from Cons.prems have rest:
    "\<forall>k\<in>set rest. \<exists>ds. map_of weekMap k = Some ds \<and> list_all (readable env) ds" by simp
  show ?case
    by (simp add: ds scanWeek_spec [OF ok] Cons.IH [OF rest] Let_def)
qed

lemma map_of_pushDate:
  "map_of (pushDate k d wm) =
     (map_of wm)(k \<mapsto> (case map_of wm k of None \<Rightarrow> [d] | Some ds \<Rightarrow> ds @ [d]))"
  by (simp add: pushDate_def map_of_assign split: option.splits)

lemma distinct_pushDate: "distinct (map fst wm) \<Longrightarrow> distinct (map fst (pushDate k d wm))"
  by (simp add: pushDate_def distinct_assign split: option.splits)

lemma groupDates_total:
  assumes "\<forall>d\<in>set dates. parse (stem d) \<noteq> None"
    and "\<forall>k ds. map_of acc k = Some ds \<longrightarrow> set ds \<subseteq> D"
    and "distinct (map fst acc)"
  shows "\<exists>wm. groupDates off parse dates acc = Inr wm
           \<and> (\<forall>k ds. map_of wm k = Some ds \<longrightarrow> set ds \<subseteq> D \<union> set dates)
           \<and> distinct (map fst wm)"
  using assms
proof (induction dates arbitrary: acc D)
  case Nil
  then show ?case by simp
next
  case (Cons d rest)
  from Cons.prems(1) obtain t where t: "parse (stem d) = Some t" by auto
  then obtain k where k: "getWeekKey off (parse (stem d)) = Inr k"
    by (simp add: getWeekKey_def Let_def)
  have rest: "\<forall>d\<in>set rest. parse (stem d) \<noteq> None" using Cons.prems(1) by simp
  have within: "\<forall>k' ds. map_of (pushDate k d acc) k' = Some ds \<longrightarrow> set ds \<subseteq> insert d D"
    using Cons.prems(2) by (auto simp: map_of_pushDate split: option.splits if_splits)
  have dist: "distinct (map fst (pushDate k d acc))"
    using Cons.prems(3) by (rule distinct_pushDate)
  from Cons.IH [OF rest within dist] show ?case
    by (auto simp: k)
qed

lemma map_of_sorted_buckets:
  "map_of (map (\<lambda>(weekKey, ds). (weekKey, sort ds)) wm) k = map_option sort (map_of wm k)"
  by (induction wm) auto

lemma batchDatesByWeek_total:
  assumes "\<forall>d\<in>set dates. parse (stem d) \<noteq> None"
  shows "\<exists>weekMap. batchDatesByWeek off parse dates = Inr weekMap
           \<and> (\<forall>k ds. map_of weekMap k = Some ds \<longrightarrow> set ds \<subseteq> set dates \<and> sorted ds)
           \<and> distinct (map fst weekMap)"
proof -
  from groupDates_total [OF assms, of "[]" "{}" off] obtain wm where
    wm: "groupDates off parse dates [] = Inr wm"
    and within: "\<forall>k ds. map_of wm k = Some ds \<longrightarrow> set ds \<subseteq> set dates"
    and dist: "distinct (map fst wm)" by auto
  let ?weekMap = "map (\<lambda>(weekKey, ds). (weekKey, sort ds)) wm"
  have "batchDatesByWeek off parse dates = Inr ?weekMap"
    by (simp add: batchDatesByWeek_def wm)
  moreover have "\<forall>k ds. map_of ?weekMap k = Some ds \<longrightarrow> set ds \<subseteq> set dates \<and> sorted ds"
  proof (intro allI impI)
    fix k ds
    assume "map_of ?weekMap k = Some ds"
    then obtain ds' where "map_of wm k = Some ds'" and "ds = sort ds'"
      by (auto simp: map_of_sorted_buckets)
    with within show "set ds \<subseteq> set dates \<and> sorted ds" by simp
  qed
  moreover have "map fst ?weekMap = map fst wm" by (induction wm) auto
  with dist have "distinct (map fst ?weekMap)" by (simp only:)
  ultimately show ?thesis by blast
qed

lemma groupDates_parsed:
  "groupDates off parse dates acc = Inr wm \<Longrightarrow> d \<in> set dates \<Longrightarrow> parse (stem d) \<noteq> None"
proof (induction dates arbitrary: acc)
  case Nil
  then show ?case by simp
next
  case (Cons d' rest)
  from Cons.prems(1) obtain k where k: "getWeekKey off (parse (stem d')) = Inr k"
    and rest: "groupDates off parse rest (pushDate k d' acc) = Inr wm"
    by (auto split: sum.splits)
  from k have "parse (stem d') \<noteq> None"
    by (cases "parse (stem d')") (simp_all add: getWeekKey_def)
  with Cons.IH [OF rest] Cons.prems(2) show ?case by auto
qed

text \<open>
  Every date that \<open>scanWeek\<close> meets has a valid \<^verbatim>\<open>Date\<close>: its \<open>RangeError\<close> branch is
  never taken in \<open>processPackage\<close>.
\<close>

lemma scanned_dates_parse:
  assumes "batchDatesByWeek off parse dates = Inr weekMap"
    and "map_of weekMap k = Some ds" and "d \<in> set ds"
  shows "parse (stem d) \<noteq> None"
proof -
  from assms(1) obtain wm where "groupDates off parse dates [] = Inr wm"
    by (auto simp: batchDatesByWeek_def split: sum.splits)
  then have all: "\<forall>d\<in>set dates. parse (stem d) \<noteq> None"
    by (blast dest: groupDates_parsed)
  from batchDatesByWeek_total [OF all, of off] assms(1,2)
  have "set ds \<subseteq> set dates" by auto
  with all assms(3) show ?thesis by auto
qed

lemma key_has_bucket: "k \<in> set (map fst weekMap) \<Longrightarrow> \<exists>ds. map_of weekMap k = Some ds"
  by (metis domD dom_map_of_conv_image_fst set_map)

text \<open>
  Claim C7. For a run in which the seed folder, the data file and the write succeed and
  every seed date parses and is read without an error, \<open>processPackage\<close> returns what
  the specification describes: the buckets of \<open>batchDatesByWeek\<close> (one per week key,
  each sorted ascending) are visited in ascending order of their week keys; in each one
  the dates are scanned in order up to and including the first that has download data
  for the package (\<open>seedReads\<close>), that single observation is merged, and a week without
  any such date merges nothing. The order of the weeks is the order of the week-key
  strings.
\<close>

theorem first_available_day_per_week:
  assumes dir: "readdirSeed env = Inr (Some names)"
    and mk: "mkdirError env p = None"
    and ex: "readDataFile env p = Inr (Some existingData)"
    and wr: "writeError env p = None"
    and ok: "list_all (readable env) names"
  shows "\<exists>weekMap. batchDatesByWeek (tzOffset env) (newDate env) (sort names) = Inr weekMap
           \<and> distinct (map fst weekMap)
           \<and> sorted (sort (map fst weekMap))
           \<and> list_all sorted (weeksInOrder weekMap)
           \<and> processPackage env p = Inr (mergedWeeks env p weekMap existingData)"
proof -
  have parse: "\<forall>d\<in>set (sort names). newDate env (stem d) \<noteq> None"
    using ok by (simp add: list_all_iff readable_def)
  from batchDatesByWeek_total [OF parse, of "tzOffset env"] obtain weekMap where
    b: "batchDatesByWeek (tzOffset env) (newDate env) (sort names) = Inr weekMap"
    and within: "\<forall>k ds. map_of weekMap k = Some ds \<longrightarrow> set ds \<subseteq> set (sort names) \<and> sorted ds"
    and dist: "distinct (map fst weekMap)" by blast
  have buckets: "\<forall>k\<in>set (sort (map fst weekMap)).
      \<exists>ds. map_of weekMap k = Some ds \<and> list_all (readable env) ds"
  proof
    fix k assume "k \<in> set (sort (map fst weekMap))"
    then have "k \<in> set (map fst weekMap)" by simp
    from key_has_bucket [OF this] obtain ds where ds: "map_of weekMap k = Some ds" by blast
    with within have "set ds \<subseteq> set names" by auto
    with ok have "list_all (readable env) ds" by (auto simp: list_all_iff)
    with ds show "\<exists>ds. map_of weekMap k = Some ds \<and> list_all (readable env) ds" by blast
  qed
  have srt: "list_all sorted (weeksInOrder weekMap)"
    using within by (auto simp: weeksInOrder_def list_all_iff split: option.splits)
  have run: "processWeeks env p weekMap (sort (map fst weekMap))
       \<lparr>series = existingData, weeksAdded = 0, seedReads = []\<rparr>
     = Inr (mergedWeeks env p weekMap existingData)"
    by (simp add: processWeeks_spec [OF buckets] mergedWeeks_def weeksInOrder_def Let_def)
  have "processPackage env p = Inr (mergedWeeks env p weekMap existingData)"
    by (simp add: processPackage_def getSeedDates_def dir mk ex wr b run)
  with b dist srt show ?thesis by simp
qed

text \<open>
  C7 in the concrete scenario: in the week of 2024-01-07 the Sunday has no data for the
  package, the Monday is merged and the Tuesday is never read.
\<close>

theorem first_available_day_per_week_witness:
  "processPackage scenarioEnv ''@mui/material'' =
     Inr (mergedWeeks scenarioEnv ''@mui/material''
            [(''2024-01-07'', [''2024-01-07.json'', ''2024-01-08.json'', ''2024-01-09.json'']),
             (''2024-01-14'', [''2024-01-14.json''])] scenarioSeries)
   \<and> mergedWeeks scenarioEnv ''@mui/material''
            [(''2024-01-07'', [''2024-01-07.json'', ''2024-01-08.json'', ''2024-01-09.json'']),
             (''2024-01-14'', [''2024-01-14.json''])] scenarioSeries =
       \<lparr>series = \<lparr>package = ''@mui/material'',
                   timestamps = [1704672000000, 1705190400000, 1705795200000],
                   downloads = [(''5.14.0'', [10, 20, 30])]\<rparr>,
        weeksAdded = 2,
        seedReads = [''2024-01-07.json'', ''2024-01-08.json'', ''2024-01-14.json'']\<rparr>"
proof -
  let ?names = "[''2024-01-14.json'', ''2024-01-08.json'', ''2024-01-09.json'', ''2024-01-07.json'']"
  let ?wm = "[(''2024-01-07'', [''2024-01-07.json'', ''2024-01-08.json'', ''2024-01-09.json'']),
             (''2024-01-14'', [''2024-01-14.json''])]"
  have dir: "readdirSeed scenarioEnv = Inr (Some ?names)" by (simp add: scenarioEnv_def)
  have mk: "mkdirError scenarioEnv ''@mui/material'' = None" by (simp add: scenarioEnv_def)
  have ex: "readDataFile scenarioEnv ''@mui/material'' = Inr (Some scenarioSeries)"
    by (simp add: scenarioEnv_def)
  have wr: "writeError scenarioEnv ''@mui/material'' = None" by (simp add: scenarioEnv_def)
  have ok: "list_all (readable scenarioEnv) ?names" by code_simp
  have b: "batchDatesByWeek (tzOffset scenarioEnv) (newDate scenarioEnv) (sort ?names) = Inr ?wm"
    by code_simp
  from first_available_day_per_week [OF dir mk ex wr ok] b
  have run: "processPackage scenarioEnv ''@mui/material'' =
     Inr (mergedWeeks scenarioEnv ''@mui/material'' ?wm scenarioSeries)" by auto
  have val: "mergedWeeks scenarioEnv ''@mui/material'' ?wm scenarioSeries =
       \<lparr>series = \<lparr>package = ''@mui/material'',
                   timestamps = [1704672000000, 1705190400000, 1705795200000],
                   downloads = [(''5.14.0'', [10, 20, 30])]\<rparr>,
        weeksAdded = 2,
        seedReads = [''2024-01-07.json'', ''2024-01-08.json'', ''2024-01-14.json'']\<rparr>"
    by code_simp
  from run val show ?thesis by (rule conjI)
qed


section \<open>The batch\<close>

lemma snd_tryPackage:
  "snd (tryPackage env p) =
     (case processPackage env p of Inl e \<Rightarrow> None | Inr run \<Rightarrow> Some (p, series run))"
  by (simp add: tryPackage_def split: sum.splits)

lemma set_map_filter_eq: "set (List.map_filter f xs) = {y. \<exists>x\<in>set xs. f x = Some y}"
  by (induction xs) (auto simp: map_filter_simps split: option.splits)

lemma snd_tryPackage_Some:
  "snd (tryPackage env x) = Some (p, s) \<longleftrightarrow>
     x = p \<and> (\<exists>run. processPackage env p = Inr run \<and> s = series run)"
  by (cases "processPackage env x") (auto simp: snd_tryPackage)

lemma written_main:
  "set (written (main env)) =
     {(p, s). p \<in> set PACKAGES \<and> (\<exists>run. processPackage env p = Inr run \<and> s = series run)}"
proof -
  have "written (main env) = List.map_filter (\<lambda>p. snd (tryPackage env p)) PACKAGES"
    by (simp add: main_def Let_def List.map_filter_def filter_map comp_def)
  then have "set (written (main env)) =
      {y. \<exists>x\<in>set PACKAGES. snd (tryPackage env x) = Some y}"
    by (simp add: set_map_filter_eq)
  also have "\<dots> = {(p, s). p \<in> set PACKAGES
        \<and> (\<exists>run. processPackage env p = Inr run \<and> s = series run)}"
    by (auto simp: snd_tryPackage_Some)
  finally show ?thesis .
qed

lemma fst_tryPackage:
  "fst (tryPackage env p) =
     Inr \<lparr>result_package = p, success = \<not> isl (processPackage env p),
          result_error = (case processPackage env p of Inl e \<Rightarrow> Some (message e)
                          | Inr run \<Rightarrow> None)\<rparr>"
  by (simp add: tryPackage_def split: sum.splits)

lemma results_main:
  "results (main env) =
     map (\<lambda>p. Fulfilled \<lparr>result_package = p, success = \<not> isl (processPackage env p),
          result_error = (case processPackage env p of Inl e \<Rightarrow> Some (message e)
                          | Inr run \<Rightarrow> None)\<rparr>) PACKAGES"
  by (simp add: main_def Let_def allSettled_def fst_tryPackage)

lemma successful_main:
  "successful (main env) = length (filter (\<lambda>p. \<not> isl (processPackage env p)) PACKAGES)"
proof -
  have "successful (main env) =
      length (filter (\<lambda>r. case r of Fulfilled v \<Rightarrow> success v | Rejected e \<Rightarrow> False)
                (results (main env)))"
    by (simp add: main_def Let_def)
  then show ?thesis
    by (simp add: results_main filter_map comp_def)
qed

text \<open>
  Claim C9. Whatever the environment, every package of \<open>PACKAGES\<close> gets a fulfilled
  result that records whether its own run succeeded and, if not, the message of its
  error; no result is a rejection. The summary counts the successful runs, and
  \<open>failed\<close> is the total minus that count. Every package whose own run succeeds has its
  series written, whatever happens to the others.
\<close>

theorem batch_isolates_failures:
  "results (main env) =
     map (\<lambda>p. Fulfilled \<lparr>result_package = p, success = \<not> isl (processPackage env p),
          result_error = (case processPackage env p of Inl e \<Rightarrow> Some (message e)
                          | Inr run \<Rightarrow> None)\<rparr>) PACKAGES
   \<and> successful (main env) = length (filter (\<lambda>p. \<not> isl (processPackage env p)) PACKAGES)
   \<and> failed (main env) = length PACKAGES - successful (main env)
   \<and> successful (main env) + failed (main env) = length PACKAGES
   \<and> (\<forall>p run. p \<in> set PACKAGES \<and> processPackage env p = Inr run
         \<longrightarrow> (p, series run) \<in> set (written (main env)))"
proof (intro conjI allI impI)
  show "results (main env) =
     map (\<lambda>p. Fulfilled \<lparr>result_package = p, success = \<not> isl (processPackage env p),
          result_error = (case processPackage env p of Inl e \<Rightarrow> Some (message e)
                          | Inr run \<Rightarrow> None)\<rparr>) PACKAGES"
    by (rule results_main)
  show "successful (main env) = length (filter (\<lambda>p. \<not> isl (processPackage env p)) PACKAGES)"
    by (rule successful_main)
  show f: "failed (main env) = length PACKAGES - successful (main env)"
    by (simp add: main_def Let_def)
  have "successful (main env) \<le> length PACKAGES"
    by (simp add: successful_main)
  with f show "successful (main env) + failed (main env) = length PACKAGES" by simp
next
  fix p run
  assume "p \<in> set PACKAGES \<and> processPackage env p = Inr run"
  then show "(p, series run) \<in> set (written (main env))"
    by (simp add: written_main)
qed

text \<open>
  C9 in the concrete scenario: the run of \<^verbatim>\<open>react\<close> throws, 29 packages have no data
  file, and the series of \<^verbatim>\<open>@mui/material\<close> is updated and written all the same.
\<close>

theorem batch_isolates_failures_witness:
  "processPackage scenarioEnv ''react'' = Inl (Thrown ''Unexpected end of JSON input'')
   \<and> (''@mui/material'',
        \<lparr>package = ''@mui/material'',
         timestamps = [1704672000000, 1705190400000, 1705795200000],
         downloads = [(''5.14.0'', [10, 20, 30])]\<rparr>) \<in> set (written (main scenarioEnv))
   \<and> successful (main scenarioEnv) = 1
   \<and> failed (main scenarioEnv) = 30"
proof -
  have react: "processPackage scenarioEnv ''react'' = Inl (Thrown ''Unexpected end of JSON input'')"
    by code_simp
  have mat: "processPackage scenarioEnv ''@mui/material'' =
     Inr \<lparr>series = \<lparr>package = ''@mui/material'',
                   timestamps = [1704672000000, 1705190400000, 1705795200000],
                   downloads = [(''5.14.0'', [10, 20, 30])]\<rparr>,
        weeksAdded = 2,
        seedReads = [''2024-01-07.json'', ''2024-01-08.json'', ''2024-01-14.json'']\<rparr>"
    by code_simp
  have mem: "''@mui/material'' \<in> set PACKAGES" by (simp add: PACKAGES_def)
  have cnt: "length (filter (\<lambda>p. \<not> isl (processPackage scenarioEnv p)) PACKAGES) = 1"
    by code_simp
  have len: "length PACKAGES = 31" by (simp add: PACKAGES_def)
  note th = batch_isolates_failures [of scenarioEnv]
  from th mem mat have w: "(''@mui/material'', series \<lparr>series = \<lparr>package = ''@mui/material'',
                   timestamps = [1704672000000, 1705190400000, 1705795200000],
                   downloads = [(''5.14.0'', [10, 20, 30])]\<rparr>,
        weeksAdded = 2,
        seedReads = [''2024-01-07.json'', ''2024-01-08.json'', ''2024-01-14.json'']\<rparr>)
      \<in> set (written (main scenarioEnv))" by blast
  from th cnt have s: "successful (main scenarioEnv) = 1" by simp
  from th s len have f: "failed (main scenarioEnv) = 30" by simp
  from react w s f show ?thesis by simp
qed

end
